theory Spec2Isabelle
  imports Complex_Main "HOL-Library.Word"
begin

unbundle bit_operations_syntax

section \<open>Data model\<close>

type_synonym byte = "8 word"
type_synonym uint64 = "64 word"
type_synonym int64 = "64 word"

text \<open>utils.go: \<^verbatim>\<open>EVMWordByteLen = 32\<close>, \<^verbatim>\<open>EVMWordHexLen = EVMWordByteLen * 2\<close>.\<close>

definition EVMWordByteLen :: nat where
  "EVMWordByteLen = 32"

definition EVMWordHexLen :: nat where
  "EVMWordHexLen = EVMWordByteLen * 2"

text \<open>
  A Go \<^verbatim>\<open>float64\<close>: the finite values are real numbers (every real is admitted here, which
  only enlarges the set of inputs), plus the two infinities and NaN.
\<close>

datatype float64 = Finite real | PosInf | NegInf | NaN

text \<open>\<^verbatim>\<open>gjson.Type\<close> and the fields of \<^verbatim>\<open>gjson.Result\<close> that the transcoders read.\<close>

datatype gjson_Type =
  gjson_Null | gjson_False | gjson_Number | gjson_String | gjson_True | gjson_JSON

record Result =
  Type :: gjson_Type
  Str :: string
  Num :: float64

text \<open>
  The errors of ethabi.go are built from message strings; one constructor per message:
  \<^item> \<open>NegativeUint256\<close>: \<^verbatim>\<open>errors.New("Uint256 cannot be negative")\<close> (the spec's SignError);
  \<^item> \<open>OverflowUnsigned v\<close>: \<^verbatim>\<open>"Overflow saving big.Int to EVM word: %v"\<close> (OverflowError);
  \<^item> \<open>OverflowSigned v\<close>: \<^verbatim>\<open>"Overflow saving signed big.Int to EVM word: %v"\<close> (OverflowError);
  \<^item> \<open>ParsingError s\<close>: \<^verbatim>\<open>"error parsing %s"\<close> (ParseError);
  \<^item> \<open>UnsupportedEncoding t\<close>: \<^verbatim>\<open>"unsupported encoding for value: %s"\<close> (FormatError).
\<close>

datatype error =
  NegativeUint256
  | OverflowUnsigned int
  | OverflowSigned int
  | ParsingError string
  | UnsupportedEncoding gjson_Type

section \<open>Library operations used by the encoders\<close>

subsection \<open>math/big\<close>

text \<open>
  A \<^verbatim>\<open>*big.Int\<close> is an \<open>int\<close>. \<^verbatim>\<open>Bytes\<close> is the big-endian magnitude without leading
  zeros (empty for 0), \<^verbatim>\<open>BitLen\<close> the bit length of the magnitude, \<^verbatim>\<open>Sign\<close> the sign.
\<close>

fun nat_bytes :: "nat \<Rightarrow> byte list" where
  "nat_bytes n = (if n = 0 then [] else nat_bytes (n div 256) @ [of_nat (n mod 256)])"

declare nat_bytes.simps [simp del]

fun nat_bitlen :: "nat \<Rightarrow> nat" where
  "nat_bitlen n = (if n = 0 then 0 else Suc (nat_bitlen (n div 2)))"

declare nat_bitlen.simps [simp del]

definition Bytes :: "int \<Rightarrow> byte list" where
  "Bytes v = nat_bytes (nat \<bar>v\<bar>)"

definition BitLen :: "int \<Rightarrow> nat" where
  "BitLen v = nat_bitlen (nat \<bar>v\<bar>)"

definition Sign :: "int \<Rightarrow> int" where
  "Sign v = (if v < 0 then - 1 else if v = 0 then 0 else 1)"

text \<open>
  \<^verbatim>\<open>(*big.Int).SetString(s, base)\<close> for an explicit base between 2 and 36: an optional sign,
  then at least one digit, every digit below the base, up to the end of the string. No
  prefix and no underscore is accepted when the base is given.
\<close>

definition digit_val :: "char \<Rightarrow> nat option" where
  "digit_val c =
     (let n = (of_char c :: nat) in
      if 48 \<le> n \<and> n \<le> 57 then Some (n - 48)
      else if 97 \<le> n \<and> n \<le> 122 then Some (n - 97 + 10)
      else if 65 \<le> n \<and> n \<le> 90 then Some (n - 65 + 10)
      else None)"

fun scan_digits :: "nat \<Rightarrow> string \<Rightarrow> nat \<Rightarrow> nat option" where
  "scan_digits base [] acc = Some acc"
| "scan_digits base (c # cs) acc =
     (case digit_val c of
        None \<Rightarrow> None
      | Some d \<Rightarrow> if d < base then scan_digits base cs (acc * base + d) else None)"

definition scan_sign :: "string \<Rightarrow> bool \<times> string" where
  "scan_sign s =
     (case s of
        [] \<Rightarrow> (False, s)
      | c # cs \<Rightarrow>
          if c = CHR ''-'' then (True, cs)
          else if c = CHR ''+'' then (False, cs)
          else (False, s))"

definition SetString :: "string \<Rightarrow> nat \<Rightarrow> int option" where
  "SetString s base =
     (let (neg, ds) = scan_sign s in
      if ds = [] then None
      else case scan_digits base ds 0 of
             None \<Rightarrow> None
           | Some n \<Rightarrow> Some (if neg then - int n else int n))"

subsection \<open>encoding/binary, bytes and go-ethereum/common\<close>

text \<open>\<^verbatim>\<open>binary.BigEndian.PutUint64(b, v)\<close> writes \<open>b[0] = byte(v >> 56)\<close> ... \<open>b[7] = byte(v)\<close>.\<close>

definition PutUint64 :: "byte list \<Rightarrow> uint64 \<Rightarrow> byte list" where
  "PutUint64 b v =
     b[0 := ucast (drop_bit 56 v), 1 := ucast (drop_bit 48 v),
       2 := ucast (drop_bit 40 v), 3 := ucast (drop_bit 32 v),
       4 := ucast (drop_bit 24 v), 5 := ucast (drop_bit 16 v),
       6 := ucast (drop_bit 8 v), 7 := ucast v]"

text \<open>
  \<^verbatim>\<open>common.LeftPadBytes(slice, l)\<close>: the slice itself when it already has \<open>l\<close> bytes or
  more, else \<open>l\<close> bytes ending in the slice.
\<close>

definition LeftPadBytes :: "byte list \<Rightarrow> nat \<Rightarrow> byte list" where
  "LeftPadBytes bs l =
     (if l \<le> length bs then bs
      else replicate (l - length bs) 0 @ bs)"

text \<open>
  Go's conversion of a \<^verbatim>\<open>float64\<close> to an integer type discards the fraction. When the
  truncated value is not representable in the target type (or the operand is NaN or an
  infinity) the conversion still succeeds, with an implementation-dependent result:
  the parameter \<open>impl\<close> supplies it.
\<close>

definition float_trunc :: "real \<Rightarrow> int" where
  "float_trunc x = (if x < 0 then - \<lfloor>- x\<rfloor> else \<lfloor>x\<rfloor>)"

definition int64_of_float64 :: "(float64 \<Rightarrow> int64) \<Rightarrow> float64 \<Rightarrow> int64" where
  "int64_of_float64 impl f =
     (case f of
        Finite x \<Rightarrow>
          if - (2 ^ 63) \<le> float_trunc x \<and> float_trunc x < 2 ^ 63
          then word_of_int (float_trunc x) else impl f
      | _ \<Rightarrow> impl f)"

definition uint64_of_float64 :: "(float64 \<Rightarrow> uint64) \<Rightarrow> float64 \<Rightarrow> uint64" where
  "uint64_of_float64 impl f =
     (case f of
        Finite x \<Rightarrow>
          if 0 \<le> float_trunc x \<and> float_trunc x < 2 ^ 64
          then word_of_int (float_trunc x) else impl f
      | _ \<Rightarrow> impl f)"

text \<open>
  One implementation of the unrepresentable case, used to evaluate the transcoders on
  concrete numbers: the truncated value reduced modulo \<open>2 ^ 64\<close>, and 0 for NaN and the
  infinities. For \<open>-1.0\<close> it gives \<open>2 ^ 64 - 1\<close> as an unsigned and \<open>-1\<close> as a signed value.
\<close>

definition wrap64 :: "float64 \<Rightarrow> 64 word" where
  "wrap64 f = (case f of Finite x \<Rightarrow> word_of_int (float_trunc x) | _ \<Rightarrow> 0)"

text \<open>\<^verbatim>\<open>value.Num != 0\<close>: NaN and the infinities differ from 0.\<close>

definition float_nonzero :: "float64 \<Rightarrow> bool" where
  "float_nonzero f = (case f of Finite x \<Rightarrow> x \<noteq> 0 | _ \<Rightarrow> True)"

section \<open>utils.go: hex prefix\<close>

definition HasHexPrefix :: "string \<Rightarrow> bool" where
  "HasHexPrefix str \<longleftrightarrow> length str \<ge> 2 \<and> str ! 0 = CHR ''0'' \<and> str ! 1 = CHR ''x''"

definition RemoveHexPrefix :: "string \<Rightarrow> string" where
  "RemoveHexPrefix str = (if HasHexPrefix str then drop 2 str else str)"

section \<open>ethabi.go: range constants\<close>

text \<open>
  \<^verbatim>\<open>init()\<close>: \<open>Exp(2, 256)\<close>, \<open>Sub(maxUint257, 1)\<close>, \<open>Div(MaxUint256, 2)\<close>,
  \<open>Neg(MaxInt256)\<close>. \<^verbatim>\<open>big.Int.Div\<close> is Euclidean division, which for the positive
  divisor 2 is \<open>div\<close>.
\<close>

definition maxUint257 :: int where
  "maxUint257 = 2 ^ 256"

definition MaxUint256 :: int where
  "MaxUint256 = maxUint257 - 1"

definition MaxInt256 :: int where
  "MaxInt256 = MaxUint256 div 2"

definition MinInt256 :: int where
  "MinInt256 = - MaxInt256"

section \<open>ethabi.go: word encoders\<close>

text \<open>\<^verbatim>\<open>ConcatBytes\<close>: \<^verbatim>\<open>bytes.Buffer.Write\<close> always returns a nil error.\<close>

definition ConcatBytes :: "byte list list \<Rightarrow> error + byte list" where
  "ConcatBytes bufs = Inr (concat bufs)"

text \<open>
  \<^verbatim>\<open>EVMWordUint64\<close>: \<open>word[EVMWordByteLen-8:]\<close> shares its storage with \<open>word\<close>, so the
  eight bytes written through it are the last eight of \<open>word\<close>.
\<close>

definition EVMWordUint64 :: "uint64 \<Rightarrow> byte list" where
  "EVMWordUint64 val =
     (let word = replicate EVMWordByteLen (0 :: byte)
      in take (EVMWordByteLen - 8) word @ PutUint64 (drop (EVMWordByteLen - 8) word) val)"

definition EVMWordSignedBigInt :: "int \<Rightarrow> error + byte list" where
  "EVMWordSignedBigInt val =
     (let bytes = Bytes val in
      if BitLen val > 8 * EVMWordByteLen - 1 then Inl (OverflowSigned val)
      else
        let bytes = (if Sign val = - 1
                     then (let twosComplement = val + MaxUint256
                           in Bytes (twosComplement + 1))
                     else bytes)
        in Inr (LeftPadBytes bytes EVMWordByteLen))"

definition EVMWordBigInt :: "int \<Rightarrow> error + byte list" where
  "EVMWordBigInt val =
     (if Sign val = - 1 then Inl NegativeUint256
      else
        let bytes = Bytes val in
        if length bytes > EVMWordByteLen then Inl (OverflowUnsigned val)
        else Inr (LeftPadBytes bytes EVMWordByteLen))"

section \<open>ethabi.go: JSON transcoders\<close>

text \<open>
  \<^verbatim>\<open>EVMTranscodeBytes\<close>. \<open>[]byte(value.Str)\<close> is the string's bytes; \<open>len\<close> is a
  non-negative \<open>int\<close>, converted to \<open>uint64\<close>. In the number case a failure of
  \<^verbatim>\<open>EVMWordSignedBigInt\<close> returns the empty slice with a nil error.
\<close>

definition EVMTranscodeBytes :: "(float64 \<Rightarrow> int64) \<Rightarrow> Result \<Rightarrow> error + byte list" where
  "EVMTranscodeBytes impl value =
     (let prefix = EVMWordUint64 (of_nat (EVMWordByteLen * 2)) in
      case Type value of
        gjson_String \<Rightarrow>
          (let input = map of_char (Str value) :: byte list;
               len = length input
           in ConcatBytes
                [prefix,
                 EVMWordUint64 (of_nat len),
                 input,
                 replicate (EVMWordByteLen - (len mod EVMWordByteLen)) 0])
      | gjson_False \<Rightarrow>
          ConcatBytes [prefix, EVMWordUint64 (of_nat EVMWordByteLen), EVMWordUint64 0]
      | gjson_True \<Rightarrow>
          ConcatBytes [prefix, EVMWordUint64 (of_nat EVMWordByteLen), EVMWordUint64 1]
      | gjson_Number \<Rightarrow>
          (case EVMWordSignedBigInt (sint (int64_of_float64 impl (Num value))) of
             Inl err \<Rightarrow> Inr []
           | Inr word \<Rightarrow>
               ConcatBytes [prefix, EVMWordUint64 (of_nat EVMWordByteLen), word])
      | _ \<Rightarrow> Inl (UnsupportedEncoding (Type value)))"

definition EVMTranscodeBool :: "Result \<Rightarrow> error + byte list" where
  "EVMTranscodeBool value =
     (case Type value of
        gjson_Number \<Rightarrow> Inr (EVMWordUint64 (if float_nonzero (Num value) then 1 else 0))
      | gjson_String \<Rightarrow> Inr (EVMWordUint64 (if length (Str value) > 0 then 1 else 0))
      | gjson_True \<Rightarrow> Inr (EVMWordUint64 1)
      | gjson_False \<Rightarrow> Inr (EVMWordUint64 0)
      | gjson_Null \<Rightarrow> Inr (EVMWordUint64 0)
      | _ \<Rightarrow> Inl (UnsupportedEncoding (Type value)))"

definition EVMTranscodeUint256 :: "(float64 \<Rightarrow> uint64) \<Rightarrow> Result \<Rightarrow> error + byte list" where
  "EVMTranscodeUint256 impl value =
     (case Type value of
        gjson_String \<Rightarrow>
          (case (if HasHexPrefix (Str value)
                 then SetString (RemoveHexPrefix (Str value)) 16
                 else SetString (Str value) 10) of
             None \<Rightarrow> Inl (ParsingError (Str value))
           | Some output \<Rightarrow> EVMWordBigInt output)
      | gjson_Number \<Rightarrow> EVMWordBigInt (uint (uint64_of_float64 impl (Num value)))
      | gjson_Null \<Rightarrow> EVMWordBigInt 0
      | _ \<Rightarrow> Inl (UnsupportedEncoding (Type value)))"

section \<open>Decoding words\<close>

text \<open>
  The value of a byte sequence read as a big-endian unsigned integer, and the value of
  a 32-byte word read as a 256-bit two's-complement integer.
\<close>

definition be_decode :: "byte list \<Rightarrow> nat" where
  "be_decode bs = foldl (\<lambda>acc b. acc * 256 + unat b) 0 bs"

definition decode_int256 :: "byte list \<Rightarrow> int" where
  "decode_int256 w =
     (let n = int (be_decode w) in if n \<ge> 2 ^ 255 then n - 2 ^ 256 else n)"

section \<open>Facts about the library operations\<close>

lemma be_decode_snoc: "be_decode (xs @ [b]) = be_decode xs * 256 + unat b"
  by (simp add: be_decode_def)

lemma be_decode_nat_bytes: "be_decode (nat_bytes n) = n"
proof (induction n rule: nat_bytes.induct)
  case (1 n)
  show ?case
  proof (cases "n = 0")
    case True
    then show ?thesis by (simp add: nat_bytes.simps be_decode_def)
  next
    case False
    have "unat (of_nat (n mod 256) :: byte) = n mod 256"
      by (simp add: unat_of_nat)
    with False 1 show ?thesis
      by (subst nat_bytes.simps) (simp add: be_decode_snoc)
  qed
qed

lemma foldl_zeros: "foldl (\<lambda>acc b. acc * 256 + unat b) 0 (replicate k (0::byte)) = 0"
  by (induction k) simp_all

lemma be_decode_pad: "be_decode (replicate k 0 @ xs) = be_decode xs"
  by (simp add: be_decode_def foldl_zeros)

lemma length_nat_bytes_le: "length (nat_bytes n) \<le> k \<longleftrightarrow> n < 256 ^ k"
proof (induction n arbitrary: k rule: nat_bytes.induct)
  case (1 n)
  show ?case
  proof (cases "n = 0")
    case True
    then show ?thesis by (simp add: nat_bytes.simps)
  next
    case False
    show ?thesis
    proof (cases k)
      case 0
      with False show ?thesis by (subst nat_bytes.simps) simp
    next
      case (Suc j)
      have "length (nat_bytes n) = Suc (length (nat_bytes (n div 256)))"
        using False by (subst nat_bytes.simps) simp
      moreover have "n div 256 < 256 ^ j \<longleftrightarrow> n < 256 ^ Suc j"
        by (simp add: div_less_iff_less_mult mult.commute)
      ultimately show ?thesis using 1 [OF False, of j] Suc by simp
    qed
  qed
qed

lemma nat_bitlen_le: "nat_bitlen n \<le> k \<longleftrightarrow> n < 2 ^ k"
proof (induction n arbitrary: k rule: nat_bitlen.induct)
  case (1 n)
  show ?case
  proof (cases "n = 0")
    case True
    then show ?thesis by (simp add: nat_bitlen.simps)
  next
    case False
    show ?thesis
    proof (cases k)
      case 0
      with False show ?thesis by (subst nat_bitlen.simps) simp
    next
      case (Suc j)
      have "nat_bitlen n = Suc (nat_bitlen (n div 2))"
        using False by (subst nat_bitlen.simps) simp
      moreover have "n div 2 < 2 ^ j \<longleftrightarrow> n < 2 ^ Suc j"
        by (simp add: div_less_iff_less_mult mult.commute)
      ultimately show ?thesis using 1 [OF False, of j] Suc by simp
    qed
  qed
qed

lemma EVMWordUint64_bytes:
  "EVMWordUint64 v =
     replicate 24 0 @
     [ucast (drop_bit 56 v), ucast (drop_bit 48 v), ucast (drop_bit 40 v),
      ucast (drop_bit 32 v), ucast (drop_bit 24 v), ucast (drop_bit 16 v),
      ucast (drop_bit 8 v), ucast v]"
  by (simp add: EVMWordUint64_def EVMWordByteLen_def PutUint64_def Let_def
      numeral_eq_Suc)

lemma unat_byte_of: "unat (ucast (drop_bit k (v::uint64)) :: byte) = (unat v div 2 ^ k) mod 256"
proof -
  have "unat (ucast (drop_bit k v) :: byte) = drop_bit k (unat v) mod 256"
    by (simp add: unsigned_ucast_eq unat_drop_bit_eq take_bit_eq_mod)
  then show ?thesis by (simp add: drop_bit_eq_div)
qed

lemma unat_byte_low: "unat (ucast (v::uint64) :: byte) = unat v mod 256"
  by (simp add: unsigned_ucast_eq take_bit_eq_mod)

lemma step_div: "(n div (d * 256)) * 256 + (n div d) mod 256 = n div d" for n d :: nat
proof -
  have "n div (d * 256) = n div d div 256" by (simp add: div_mult2_eq)
  then show ?thesis by simp
qed

lemma be_decode_8:
  fixes n :: nat
  assumes n: "n < 2 ^ 64"
    and u: "unat b0 = n div 2 ^ 56 mod 256" "unat b1 = n div 2 ^ 48 mod 256"
      "unat b2 = n div 2 ^ 40 mod 256" "unat b3 = n div 2 ^ 32 mod 256"
      "unat b4 = n div 2 ^ 24 mod 256" "unat b5 = n div 2 ^ 16 mod 256"
      "unat b6 = n div 2 ^ 8 mod 256" "unat b7 = n mod 256"
  shows "be_decode [b0, b1, b2, b3, b4, b5, b6, b7] = n"
proof -
  have "n div 2 ^ 56 < 256" using n by (simp add: div_less_iff_less_mult)
  then have s1: "be_decode [b0] = n div 2 ^ 56"
    using u(1) by (simp add: be_decode_def)
  have s2: "be_decode [b0, b1] = n div 2 ^ 48"
    using be_decode_snoc [of "[b0]" b1] s1 u(2) step_div [of n "2 ^ 48"] by simp
  have s3: "be_decode [b0, b1, b2] = n div 2 ^ 40"
    using be_decode_snoc [of "[b0, b1]" b2] s2 u(3) step_div [of n "2 ^ 40"] by simp
  have s4: "be_decode [b0, b1, b2, b3] = n div 2 ^ 32"
    using be_decode_snoc [of "[b0, b1, b2]" b3] s3 u(4) step_div [of n "2 ^ 32"] by simp
  have s5: "be_decode [b0, b1, b2, b3, b4] = n div 2 ^ 24"
    using be_decode_snoc [of "[b0, b1, b2, b3]" b4] s4 u(5) step_div [of n "2 ^ 24"] by simp
  have s6: "be_decode [b0, b1, b2, b3, b4, b5] = n div 2 ^ 16"
    using be_decode_snoc [of "[b0, b1, b2, b3, b4]" b5] s5 u(6) step_div [of n "2 ^ 16"]
    by simp
  have s7: "be_decode [b0, b1, b2, b3, b4, b5, b6] = n div 2 ^ 8"
    using be_decode_snoc [of "[b0, b1, b2, b3, b4, b5]" b6] s6 u(7) step_div [of n "2 ^ 8"]
    by simp
  show ?thesis
    using be_decode_snoc [of "[b0, b1, b2, b3, b4, b5, b6]" b7] s7 u(8) step_div [of n 1]
    by simp
qed

lemma be_decode_EVMWordUint64: "be_decode (EVMWordUint64 v) = unat v"
proof -
  have "unat v < 2 ^ 64" using unsigned_less [of v] by simp
  then show ?thesis
    unfolding EVMWordUint64_bytes be_decode_pad
    by (rule be_decode_8) (rule unat_byte_of unat_byte_low)+
qed

lemma BitLen_le: "BitLen v \<le> k \<longleftrightarrow> \<bar>v\<bar> < 2 ^ k"
proof -
  have "nat \<bar>v\<bar> < 2 ^ k \<longleftrightarrow> \<bar>v\<bar> < 2 ^ k"
    by (simp add: nat_less_iff)
  then show ?thesis by (simp add: BitLen_def nat_bitlen_le)
qed

lemma length_Bytes_le: "length (Bytes v) \<le> k \<longleftrightarrow> \<bar>v\<bar> < 256 ^ k"
proof -
  have "nat \<bar>v\<bar> < 256 ^ k \<longleftrightarrow> \<bar>v\<bar> < 256 ^ k"
    by (simp add: nat_less_iff)
  then show ?thesis by (simp add: Bytes_def length_nat_bytes_le)
qed

lemma be_decode_Bytes: "int (be_decode (Bytes v)) = \<bar>v\<bar>"
  by (simp add: Bytes_def be_decode_nat_bytes)

lemma LeftPadBytes_short:
  "length bs \<le> l \<Longrightarrow> LeftPadBytes bs l = replicate (l - length bs) 0 @ bs"
  by (simp add: LeftPadBytes_def)

lemma word_of_Bytes:
  assumes "\<bar>v\<bar> < 2 ^ 256"
  shows "length (LeftPadBytes (Bytes v) EVMWordByteLen) = 32"
    and "LeftPadBytes (Bytes v) EVMWordByteLen = replicate (32 - length (Bytes v)) 0 @ Bytes v"
    and "int (be_decode (LeftPadBytes (Bytes v) EVMWordByteLen)) = \<bar>v\<bar>"
proof -
  have "\<bar>v\<bar> < 256 ^ 32" using assms by simp
  then have le: "length (Bytes v) \<le> 32" by (simp only: length_Bytes_le)
  then show pad: "LeftPadBytes (Bytes v) EVMWordByteLen = replicate (32 - length (Bytes v)) 0 @ Bytes v"
    by (simp add: LeftPadBytes_short EVMWordByteLen_def)
  show "length (LeftPadBytes (Bytes v) EVMWordByteLen) = 32"
    unfolding pad using le by simp
  show "int (be_decode (LeftPadBytes (Bytes v) EVMWordByteLen)) = \<bar>v\<bar>"
    unfolding pad be_decode_pad by (rule be_decode_Bytes)
qed

lemma Bytes_26: "Bytes 26 = [26]"
  by (simp add: Bytes_def nat_bytes.simps)

lemma EVMWordSignedBigInt_overflow:
  assumes "2 ^ 255 \<le> \<bar>v\<bar>"
  shows "EVMWordSignedBigInt v = Inl (OverflowSigned v)"
proof -
  have "\<not> BitLen v \<le> 255" using assms by (simp add: BitLen_le)
  then show ?thesis
    by (simp add: EVMWordSignedBigInt_def EVMWordByteLen_def)
qed

lemma EVMWordSignedBigInt_nonneg:
  assumes "0 \<le> v" "v < 2 ^ 255"
  shows "EVMWordSignedBigInt v = Inr (LeftPadBytes (Bytes v) EVMWordByteLen)"
proof -
  have "BitLen v \<le> 255" using assms by (simp add: BitLen_le)
  then show ?thesis
    using assms by (simp add: EVMWordSignedBigInt_def EVMWordByteLen_def Sign_def)
qed

lemma EVMWordSignedBigInt_neg:
  assumes "v < 0" "- (2 ^ 255) < v"
  shows "EVMWordSignedBigInt v = Inr (LeftPadBytes (Bytes (v + 2 ^ 256)) EVMWordByteLen)"
proof -
  have "BitLen v \<le> 255" using assms by (simp add: BitLen_le)
  moreover have "v + MaxUint256 + 1 = v + 2 ^ 256"
    by (simp add: MaxUint256_def maxUint257_def)
  then have "Bytes (v + MaxUint256 + 1) = Bytes (v + 2 ^ 256)"
    by (simp only:)
  ultimately show ?thesis
    using assms by (simp add: EVMWordSignedBigInt_def EVMWordByteLen_def Sign_def)
qed

lemma EVMWordSignedBigInt_in_range:
  assumes "- (2 ^ 255) < v" "v < 2 ^ 255"
  shows "\<exists>w. EVMWordSignedBigInt v = Inr w \<and> length w = 32 \<and> decode_int256 w = v"
proof (cases "0 \<le> v")
  case True
  have a: "\<bar>v\<bar> < 2 ^ 256" using True assms by simp
  show ?thesis
    using EVMWordSignedBigInt_nonneg [OF True assms(2)] word_of_Bytes(1,3) [OF a] True assms
    by (simp add: decode_int256_def)
next
  case False
  then have neg: "v < 0" by simp
  have a: "\<bar>v + 2 ^ 256\<bar> < 2 ^ 256" using neg assms by simp
  have b: "\<bar>v + 2 ^ 256\<bar> = v + 2 ^ 256" using assms by simp
  show ?thesis
    using EVMWordSignedBigInt_neg [OF neg assms(1)] word_of_Bytes(1,3) [OF a] b neg assms
    by (simp add: decode_int256_def)
qed

lemma EVMWordSignedBigInt_int64:
  fixes x :: int64
  shows "BitLen (sint x) \<le> 64"
    and "\<exists>w. EVMWordSignedBigInt (sint x) = Inr w \<and> length w = 32"
proof -
  have lo: "- (2 ^ 63) \<le> sint x" using sint_ge [of x] by simp
  have hi: "sint x < 2 ^ 63" using sint_lt [of x] by simp
  from lo hi have "\<bar>sint x\<bar> < 2 ^ 64" by simp
  then show "BitLen (sint x) \<le> 64" by (simp only: BitLen_le)
  have "- (2 ^ 255) < sint x" using lo by simp
  moreover have "sint x < 2 ^ 255" using hi by simp
  ultimately show "\<exists>w. EVMWordSignedBigInt (sint x) = Inr w \<and> length w = 32"
    using EVMWordSignedBigInt_in_range [of "sint x"] by blast
qed

lemma SetString_minus_1: "SetString ''-1'' 10 = Some (- 1)"
  by (simp add: SetString_def scan_sign_def digit_val_def)

lemma HasHexPrefix_minus_1: "\<not> HasHexPrefix ''-1''"
  by (simp add: HasHexPrefix_def)

lemma EVMWordBigInt_uint64:
  fixes u :: uint64
  shows "\<exists>w. EVMWordBigInt (uint u) = Inr w \<and> length w = 32 \<and> int (be_decode w) = uint u"
proof -
  have "uint u < 2 ^ 64" using uint_bounded [of u] by simp
  then have a: "\<bar>uint u\<bar> < 2 ^ 256" by simp
  then have "\<bar>uint u\<bar> < 256 ^ 32" by simp
  then have le: "length (Bytes (uint u)) \<le> 32" by (simp only: length_Bytes_le)
  have "EVMWordBigInt (uint u) = Inr (LeftPadBytes (Bytes (uint u)) EVMWordByteLen)"
    using le by (simp add: EVMWordBigInt_def Sign_def EVMWordByteLen_def)
  with word_of_Bytes(1,3) [OF a] show ?thesis by simp
qed

lemma uint64_of_minus_1: "uint64_of_float64 wrap64 (Finite (- 1)) = - 1"
  by (simp add: uint64_of_float64_def wrap64_def float_trunc_def)

lemma uint_max64: "uint (- 1 :: uint64) = 2 ^ 64 - 1"
  by (simp add: unsigned_minus_1_eq_mask mask_eq_exp_minus_1)

lemma int64_of_min: "int64_of_float64 wrap64 (Finite (- 9223372036854775808)) = - 9223372036854775808"
  by (simp add: int64_of_float64_def float_trunc_def)

lemma length_EVMWordUint64: "length (EVMWordUint64 v) = 32"
  by (simp add: EVMWordUint64_bytes)

lemma EVMTranscodeBytes_String:
  "Type value = gjson_String \<Longrightarrow>
     EVMTranscodeBytes impl value =
       Inr (EVMWordUint64 64 @ EVMWordUint64 (of_nat (length (Str value)))
            @ map of_char (Str value)
            @ replicate (32 - length (Str value) mod 32) 0)"
  by (simp add: EVMTranscodeBytes_def ConcatBytes_def EVMWordByteLen_def Let_def)

lemma padded_length:
  fixes n :: nat
  shows "32 dvd 64 + (n + (32 - n mod 32))" and "96 \<le> 64 + (n + (32 - n mod 32))"
proof -
  have e: "64 + (n + (32 - n mod 32)) = 32 * (n div 32 + 3)"
    by presburger
  show "32 dvd 64 + (n + (32 - n mod 32))" unfolding e by simp
  show "96 \<le> 64 + (n + (32 - n mod 32))" unfolding e by simp
qed

lemma EVMWordUint64_small:
  "unat v < 256 \<Longrightarrow> EVMWordUint64 v = replicate 31 0 @ [ucast v]"
proof -
  assume a: "unat v < 256"
  have z: "\<And>k. 8 \<le> k \<Longrightarrow> (ucast (drop_bit k v) :: byte) = 0"
  proof -
    fix k :: nat assume k: "8 \<le> k"
    have "(256::nat) \<le> 2 ^ k" using power_increasing [OF k, of "2::nat"] by simp
    with a have "unat v div 2 ^ k = 0" by simp
    then have "unat (ucast (drop_bit k v) :: byte) = 0" by (simp add: unat_byte_of)
    then show "(ucast (drop_bit k v) :: byte) = 0" by (simp add: unat_eq_0)
  qed
  show ?thesis
    by (simp add: EVMWordUint64_bytes z replicate_append_same numeral_eq_Suc)
qed

lemma float_nonzero_iff: "float_nonzero f \<longleftrightarrow> f \<noteq> Finite 0"
  by (cases f) (simp_all add: float_nonzero_def)




section \<open>Hex prefix\<close>

text \<open>
  Claim C8. \<open>HasHexPrefix s\<close> is true exactly when \<open>s\<close> has at least two characters and
  the first two are the lowercase \<open>0x\<close>; it is true of \<open>0xFF\<close> and false of \<open>0XFF\<close>.
\<close>

theorem HasHexPrefix_iff:
  "(HasHexPrefix s \<longleftrightarrow> length s \<ge> 2 \<and> take 2 s = ''0x'')
   \<and> HasHexPrefix ''0xFF'' \<and> \<not> HasHexPrefix ''0XFF''"
proof -
  have "HasHexPrefix s \<longleftrightarrow> length s \<ge> 2 \<and> take 2 s = ''0x''"
  proof (cases s)
    case Nil
    then show ?thesis by (simp add: HasHexPrefix_def)
  next
    case (Cons a t)
    then show ?thesis
      by (cases t) (auto simp: HasHexPrefix_def)
  qed
  moreover have "HasHexPrefix ''0xFF''" by (simp add: HasHexPrefix_def)
  moreover have "\<not> HasHexPrefix ''0XFF''" by (simp add: HasHexPrefix_def)
  ultimately show ?thesis by blast
qed

section \<open>Range constants\<close>

text \<open>
  Claim C2. The constants after \<^verbatim>\<open>init()\<close>: \<open>MaxUint256 = 2 ^ 256 - 1\<close> and
  \<open>MaxInt256 = 2 ^ 255 - 1\<close> as stated, but \<open>MinInt256\<close> is \<open>Neg(MaxInt256)\<close>, that is
  \<open>- (2 ^ 255) + 1\<close>, and not \<open>- (2 ^ 255)\<close>, the smallest number of a 256-bit
  two's-complement word.
\<close>

theorem range_constants:
  "MaxUint256 = 2 ^ 256 - 1 \<and> MaxInt256 = 2 ^ 255 - 1
   \<and> MinInt256 = - (2 ^ 255) + 1 \<and> MinInt256 \<noteq> - (2 ^ 255)"
  by (simp add: MaxUint256_def maxUint257_def MaxInt256_def MinInt256_def)

section \<open>Word encoders\<close>

text \<open>
  Claim C7. For every 64-bit unsigned \<open>u\<close>, \<open>EVMWordUint64 u\<close> has exactly 32 bytes, the
  first 24 are zero, the last 8 are \<open>u\<close> in big-endian order, and the whole word decodes
  (big-endian) to \<open>u\<close>. The function has no error result.
\<close>

theorem EVMWordUint64_word:
  "length (EVMWordUint64 u) = 32
   \<and> take 24 (EVMWordUint64 u) = replicate 24 0
   \<and> drop 24 (EVMWordUint64 u) =
       [ucast (drop_bit 56 u), ucast (drop_bit 48 u), ucast (drop_bit 40 u),
        ucast (drop_bit 32 u), ucast (drop_bit 24 u), ucast (drop_bit 16 u),
        ucast (drop_bit 8 u), ucast u]
   \<and> be_decode (drop 24 (EVMWordUint64 u)) = unat u
   \<and> be_decode (EVMWordUint64 u) = unat u"
proof -
  have len: "length (EVMWordUint64 u) = 32"
    by (simp add: EVMWordUint64_bytes)
  have hi: "take 24 (EVMWordUint64 u) = replicate 24 0"
    by (simp add: EVMWordUint64_bytes)
  have lo: "drop 24 (EVMWordUint64 u) =
       [ucast (drop_bit 56 u), ucast (drop_bit 48 u), ucast (drop_bit 40 u),
        ucast (drop_bit 32 u), ucast (drop_bit 24 u), ucast (drop_bit 16 u),
        ucast (drop_bit 8 u), ucast u]"
    by (simp add: EVMWordUint64_bytes)
  have "be_decode (drop 24 (EVMWordUint64 u)) = be_decode (EVMWordUint64 u)"
    unfolding lo by (simp add: EVMWordUint64_bytes be_decode_pad)
  with len hi lo be_decode_EVMWordUint64 [of u] show ?thesis by simp
qed

text \<open>
  Claim C4. For \<open>0 \<le> v \<le> MaxUint256\<close>, \<open>EVMWordBigInt v\<close> returns a 32-byte word: the
  big-endian magnitude of \<open>v\<close> left-padded with zeros, decoding to \<open>v\<close>. A negative \<open>v\<close>
  gives the error "Uint256 cannot be negative", and \<open>MaxUint256 + 1\<close> the overflow error.
\<close>

theorem EVMWordBigInt_correct:
  "(0 \<le> v \<and> v \<le> MaxUint256 \<longrightarrow>
      (\<exists>w. EVMWordBigInt v = Inr w \<and> length w = 32
           \<and> w = replicate (32 - length (Bytes v)) 0 @ Bytes v
           \<and> int (be_decode (Bytes v)) = v
           \<and> int (be_decode w) = v))
   \<and> (v < 0 \<longrightarrow> EVMWordBigInt v = Inl NegativeUint256)
   \<and> EVMWordBigInt (MaxUint256 + 1) = Inl (OverflowUnsigned (MaxUint256 + 1))"
proof (intro conjI impI)
  assume r: "0 \<le> v \<and> v \<le> MaxUint256"
  then have a: "\<bar>v\<bar> < 2 ^ 256" by (simp add: MaxUint256_def maxUint257_def)
  then have "\<bar>v\<bar> < 256 ^ 32" by simp
  then have le: "length (Bytes v) \<le> 32" by (simp only: length_Bytes_le)
  have "EVMWordBigInt v = Inr (LeftPadBytes (Bytes v) EVMWordByteLen)"
    using r le by (simp add: EVMWordBigInt_def Sign_def EVMWordByteLen_def)
  with word_of_Bytes [OF a] be_decode_Bytes [of v] r
  show "\<exists>w. EVMWordBigInt v = Inr w \<and> length w = 32
           \<and> w = replicate (32 - length (Bytes v)) 0 @ Bytes v
           \<and> int (be_decode (Bytes v)) = v
           \<and> int (be_decode w) = v"
    by simp
next
  assume "v < 0"
  then show "EVMWordBigInt v = Inl NegativeUint256"
    by (simp add: EVMWordBigInt_def Sign_def)
next
  have "\<not> length (Bytes (MaxUint256 + 1)) \<le> 32"
    by (simp add: length_Bytes_le MaxUint256_def maxUint257_def)
  moreover have "\<not> MaxUint256 + 1 < 0" by (simp add: MaxUint256_def maxUint257_def)
  ultimately show "EVMWordBigInt (MaxUint256 + 1) = Inl (OverflowUnsigned (MaxUint256 + 1))"
    by (simp add: EVMWordBigInt_def Sign_def EVMWordByteLen_def)
qed

theorem EVMWordBigInt_correct_witness:
  "EVMWordBigInt 26 = Inr (replicate 31 0 @ [26])
   \<and> EVMWordBigInt (- 1) = Inl NegativeUint256"
  using EVMWordBigInt_correct [of 26] EVMWordBigInt_correct [of "- 1"]
  by (simp add: MaxUint256_def maxUint257_def Bytes_26)

text \<open>
  Claim C1. For \<open>- (2 ^ 255) < v < 2 ^ 255\<close> the signed encoder returns a 32-byte word
  whose two's-complement decoding is \<open>v\<close>, and it reports overflow whenever the magnitude
  of \<open>v\<close> is \<open>2 ^ 255\<close> or more (\<open>EVMWordSignedBigInt_in_range\<close>,
  \<open>EVMWordSignedBigInt_overflow\<close>). The smallest number of the claimed range,
  \<open>- (2 ^ 255)\<close>, has a magnitude of 256 bits: the encoder returns the overflow error for
  it and no word.
\<close>

theorem EVMWordSignedBigInt_min_int256:
  "EVMWordSignedBigInt (- (2 ^ 255)) = Inl (OverflowSigned (- (2 ^ 255)))
   \<and> (\<forall>w. EVMWordSignedBigInt (- (2 ^ 255)) \<noteq> Inr w)"
proof -
  have "EVMWordSignedBigInt (- (2 ^ 255)) = Inl (OverflowSigned (- (2 ^ 255)))"
    by (rule EVMWordSignedBigInt_overflow) simp
  then show ?thesis by simp
qed

section \<open>JSON transcoders\<close>

text \<open>
  Claim C3. \<open>EVMTranscodeUint256\<close> of \<open>-1\<close> is to return the encoder's error "Uint256
  cannot be negative". For the decimal string \<open>-1\<close> it does: the string is parsed to
  \<open>-1\<close> and \<open>EVMWordBigInt\<close> rejects it. For a JSON number it does not: the number is
  converted to an unsigned 64-bit integer before it reaches \<open>EVMWordBigInt\<close>, whose sign
  check can then never fire, so the call returns a 32-byte word and no error, whatever
  the conversion yields. With the wrapping conversion the number \<open>-1\<close> is encoded as
  \<open>2 ^ 64 - 1\<close>.
\<close>

theorem EVMTranscodeUint256_minus_1:
  "EVMTranscodeUint256 impl \<lparr>Type = gjson_String, Str = ''-1'', Num = n\<rparr> = Inl NegativeUint256
   \<and> (Type value = gjson_Number \<longrightarrow>
        (\<exists>w. EVMTranscodeUint256 impl value = Inr w \<and> length w = 32
             \<and> int (be_decode w) = uint (uint64_of_float64 impl (Num value))))"
proof (intro conjI impI)
  show "EVMTranscodeUint256 impl \<lparr>Type = gjson_String, Str = ''-1'', Num = n\<rparr> = Inl NegativeUint256"
    by (simp add: EVMTranscodeUint256_def HasHexPrefix_minus_1 SetString_minus_1
        EVMWordBigInt_def Sign_def)
next
  assume "Type value = gjson_Number"
  then have "EVMTranscodeUint256 impl value = EVMWordBigInt (uint (uint64_of_float64 impl (Num value)))"
    by (simp add: EVMTranscodeUint256_def)
  with EVMWordBigInt_uint64 [of "uint64_of_float64 impl (Num value)"]
  show "\<exists>w. EVMTranscodeUint256 impl value = Inr w \<and> length w = 32
             \<and> int (be_decode w) = uint (uint64_of_float64 impl (Num value))"
    by simp
qed

theorem EVMTranscodeUint256_minus_1_witness:
  "EVMTranscodeUint256 wrap64 \<lparr>Type = gjson_String, Str = ''-1'', Num = Finite 0\<rparr>
     = Inl NegativeUint256
   \<and> (\<exists>w. EVMTranscodeUint256 wrap64 \<lparr>Type = gjson_Number, Str = [], Num = Finite (- 1)\<rparr> = Inr w
          \<and> length w = 32 \<and> int (be_decode w) = 2 ^ 64 - 1)"
  using EVMTranscodeUint256_minus_1
    [of wrap64 "Finite 0" "\<lparr>Type = gjson_Number, Str = [], Num = Finite (- 1)\<rparr>"]
  by (simp add: uint64_of_minus_1 uint_max64)

lemma EVMTranscodeUint256_number_minus_1:
  "EVMTranscodeUint256 wrap64 \<lparr>Type = gjson_Number, Str = [], Num = Finite (- 1)\<rparr>
     \<noteq> Inl NegativeUint256"
proof -
  obtain w where "EVMWordBigInt (uint (- 1 :: uint64)) = Inr w"
    using EVMWordBigInt_uint64 [of "- 1"] by blast
  then show ?thesis
    by (simp add: EVMTranscodeUint256_def uint64_of_minus_1)
qed




lemma int64_min_magnitude:
  "\<not> BitLen (sint (int64_of_float64 wrap64 (Finite (- 9223372036854775808)))) \<le> 63"
  by (simp add: int64_of_min BitLen_le)

text \<open>
  Claim C5. For every string, \<open>EVMTranscodeBytes\<close> succeeds and returns the offset word
  (64), the length word (the number of bytes of the string), the bytes of the string and
  then \<open>32 - (n mod 32)\<close> zero bytes, where \<open>n\<close> is the number of bytes: a whole word of
  32 zero bytes when \<open>n\<close> is a multiple of 32. A Go string has fewer than \<open>2 ^ 63\<close> bytes,
  so its length is below \<open>2 ^ 64\<close> and the length word decodes to it. For \<open>ab\<close> the
  result has 96 bytes, the length word is 2 and 30 zero bytes follow the content.
\<close>

theorem EVMTranscodeBytes_string:
  "Type value = gjson_String \<Longrightarrow>
     EVMTranscodeBytes impl value =
       Inr (EVMWordUint64 64 @ EVMWordUint64 (of_nat (length (Str value)))
            @ map of_char (Str value)
            @ replicate (32 - length (Str value) mod 32) 0)
     \<and> length (EVMWordUint64 64) = 32 \<and> be_decode (EVMWordUint64 64) = 64
     \<and> length (EVMWordUint64 (of_nat (length (Str value)))) = 32
     \<and> (length (Str value) < 2 ^ 64 \<longrightarrow>
          be_decode (EVMWordUint64 (of_nat (length (Str value)))) = length (Str value))
     \<and> (length (Str value) mod 32 = 0 \<longrightarrow>
          replicate (32 - length (Str value) mod 32) (0::byte) = replicate 32 0)"
proof -
  assume t: "Type value = gjson_String"
  have "length (Str value) < 2 ^ 64 \<longrightarrow>
          be_decode (EVMWordUint64 (of_nat (length (Str value)))) = length (Str value)"
    by (simp add: be_decode_EVMWordUint64 unat_of_nat)
  moreover have "be_decode (EVMWordUint64 64) = 64"
    by (simp add: be_decode_EVMWordUint64)
  ultimately show ?thesis
    using EVMTranscodeBytes_String [OF t, of impl] by (simp add: length_EVMWordUint64)
qed

theorem EVMTranscodeBytes_string_witness:
  "EVMTranscodeBytes wrap64 \<lparr>Type = gjson_String, Str = ''ab'', Num = Finite 0\<rparr> =
     Inr (replicate 31 0 @ [64] @ replicate 31 0 @ [2] @ [97, 98] @ replicate 30 0)
   \<and> length (replicate 31 0 @ [64] @ replicate 31 0 @ [2] @ [97, 98] @ replicate 30 (0::byte)) = 96
   \<and> be_decode (replicate 31 0 @ [2]) = 2"
  using EVMTranscodeBytes_string
    [of "\<lparr>Type = gjson_String, Str = ''ab'', Num = Finite 0\<rparr>" wrap64]
  by (simp add: EVMWordUint64_small be_decode_pad be_decode_def)

text \<open>
  Claim C10. Whenever \<open>EVMTranscodeBytes\<close> returns without an error, its output has a
  length that is a positive multiple of 32 and at least 96; the empty string gives
  exactly 96 bytes.
\<close>

theorem EVMTranscodeBytes_length:
  "(EVMTranscodeBytes impl value = Inr out \<longrightarrow>
       32 dvd length out \<and> 0 < length out \<and> 96 \<le> length out)
   \<and> (Type value = gjson_String \<and> Str value = [] \<longrightarrow>
       (\<exists>w. EVMTranscodeBytes impl value = Inr w \<and> length w = 96))"
proof (rule conjI; rule impI)
  assume r: "EVMTranscodeBytes impl value = Inr out"
  have "32 dvd length out \<and> 96 \<le> length out"
  proof (cases "Type value")
    case gjson_String
    from EVMTranscodeBytes_String [OF this, of impl] r
    have "length out = 64 + (length (Str value) + (32 - length (Str value) mod 32))"
      by (auto simp: length_EVMWordUint64)
    then show ?thesis using padded_length [of "length (Str value)"] by simp
  next
    case gjson_Number
    let ?x = "int64_of_float64 impl (Num value)"
    obtain w where w: "EVMWordSignedBigInt (sint ?x) = Inr w" "length w = 32"
      using EVMWordSignedBigInt_int64(2) [of ?x] by blast
    with gjson_Number r have "out = EVMWordUint64 64 @ EVMWordUint64 32 @ w"
      by (simp add: EVMTranscodeBytes_def ConcatBytes_def EVMWordByteLen_def)
    then show ?thesis using w(2) by (simp add: length_EVMWordUint64)
  next
    case gjson_True
    with r have "out = EVMWordUint64 64 @ EVMWordUint64 32 @ EVMWordUint64 1"
      by (simp add: EVMTranscodeBytes_def ConcatBytes_def EVMWordByteLen_def)
    then show ?thesis by (simp add: length_EVMWordUint64)
  next
    case gjson_False
    with r have "out = EVMWordUint64 64 @ EVMWordUint64 32 @ EVMWordUint64 0"
      by (simp add: EVMTranscodeBytes_def ConcatBytes_def EVMWordByteLen_def)
    then show ?thesis by (simp add: length_EVMWordUint64)
  next
    case gjson_Null
    with r show ?thesis by (simp add: EVMTranscodeBytes_def)
  next
    case gjson_JSON
    with r show ?thesis by (simp add: EVMTranscodeBytes_def)
  qed
  then show "32 dvd length out \<and> 0 < length out \<and> 96 \<le> length out" by auto
next
  assume "Type value = gjson_String \<and> Str value = []"
  then show "\<exists>w. EVMTranscodeBytes impl value = Inr w \<and> length w = 96"
    using EVMTranscodeBytes_String [of "value" impl] by (simp add: length_EVMWordUint64)
qed

theorem EVMTranscodeBytes_length_witness:
  "(\<exists>w. EVMTranscodeBytes wrap64 \<lparr>Type = gjson_String, Str = [], Num = Finite 0\<rparr> = Inr w
        \<and> length w = 96 \<and> 32 dvd length w)"
  using EVMTranscodeBytes_length
    [of wrap64 "\<lparr>Type = gjson_String, Str = [], Num = Finite 0\<rparr>"]
  by auto

text \<open>
  Claim C6. \<open>EVMTranscodeBool\<close> returns the word of 1 for a number other than 0, a
  non-empty string and \<open>true\<close>; the word of 0 for the number 0, the empty string, \<open>false\<close>
  and \<open>null\<close>; and the error "unsupported encoding" for the remaining kind (object or
  array).
\<close>

theorem EVMTranscodeBool_cases:
  "(Type value = gjson_Number \<longrightarrow>
      EVMTranscodeBool value = Inr (EVMWordUint64 (if Num value = Finite 0 then 0 else 1)))
   \<and> (Type value = gjson_String \<longrightarrow>
      EVMTranscodeBool value = Inr (EVMWordUint64 (if Str value = [] then 0 else 1)))
   \<and> (Type value = gjson_True \<longrightarrow> EVMTranscodeBool value = Inr (EVMWordUint64 1))
   \<and> (Type value = gjson_False \<or> Type value = gjson_Null \<longrightarrow>
      EVMTranscodeBool value = Inr (EVMWordUint64 0))
   \<and> (Type value = gjson_JSON \<longrightarrow>
      EVMTranscodeBool value = Inl (UnsupportedEncoding gjson_JSON))
   \<and> EVMWordUint64 1 = replicate 31 0 @ [1] \<and> be_decode (EVMWordUint64 1) = 1
   \<and> EVMWordUint64 0 = replicate 32 0 \<and> be_decode (EVMWordUint64 0) = 0"
proof -
  have one: "EVMWordUint64 1 = replicate 31 0 @ [1]"
    by (simp add: EVMWordUint64_small)
  have zero: "EVMWordUint64 0 = replicate 32 0"
  proof -
    have "replicate 32 (0::byte) = 0 # replicate 31 0" by (simp add: numeral_eq_Suc)
    then show ?thesis using EVMWordUint64_small [of 0] by (simp add: replicate_append_same)
  qed
  have dec: "be_decode (EVMWordUint64 1) = 1" "be_decode (EVMWordUint64 0) = 0"
    by (simp_all add: be_decode_EVMWordUint64)
  have "Type value = gjson_Number \<longrightarrow>
      EVMTranscodeBool value = Inr (EVMWordUint64 (if Num value = Finite 0 then 0 else 1))"
    by (simp add: EVMTranscodeBool_def float_nonzero_iff)
  moreover have "Type value = gjson_String \<longrightarrow>
      EVMTranscodeBool value = Inr (EVMWordUint64 (if Str value = [] then 0 else 1))"
    by (simp add: EVMTranscodeBool_def)
  moreover have "Type value = gjson_True \<longrightarrow> EVMTranscodeBool value = Inr (EVMWordUint64 1)"
    by (simp add: EVMTranscodeBool_def)
  moreover have "Type value = gjson_False \<or> Type value = gjson_Null \<longrightarrow>
      EVMTranscodeBool value = Inr (EVMWordUint64 0)"
    by (auto simp: EVMTranscodeBool_def)
  moreover have "Type value = gjson_JSON \<longrightarrow>
      EVMTranscodeBool value = Inl (UnsupportedEncoding gjson_JSON)"
    by (simp add: EVMTranscodeBool_def)
  ultimately show ?thesis using one zero dec by blast
qed

theorem EVMTranscodeBool_cases_witness:
  "EVMTranscodeBool \<lparr>Type = gjson_True, Str = [], Num = Finite 0\<rparr> = Inr (replicate 31 0 @ [1])
   \<and> EVMTranscodeBool \<lparr>Type = gjson_False, Str = [], Num = Finite 0\<rparr> = Inr (replicate 32 0)
   \<and> EVMTranscodeBool \<lparr>Type = gjson_String, Str = ''x'', Num = Finite 0\<rparr> = Inr (replicate 31 0 @ [1])
   \<and> EVMTranscodeBool \<lparr>Type = gjson_String, Str = [], Num = Finite 0\<rparr> = Inr (replicate 32 0)
   \<and> EVMTranscodeBool \<lparr>Type = gjson_Null, Str = [], Num = Finite 0\<rparr> = Inr (replicate 32 0)
   \<and> EVMTranscodeBool \<lparr>Type = gjson_Number, Str = [], Num = Finite 0\<rparr> = Inr (replicate 32 0)
   \<and> EVMTranscodeBool \<lparr>Type = gjson_Number, Str = [], Num = Finite 5\<rparr> = Inr (replicate 31 0 @ [1])
   \<and> EVMTranscodeBool \<lparr>Type = gjson_JSON, Str = [], Num = Finite 0\<rparr>
        = Inl (UnsupportedEncoding gjson_JSON)"
  using EVMTranscodeBool_cases [of "\<lparr>Type = gjson_True, Str = [], Num = Finite 0\<rparr>"]
    EVMTranscodeBool_cases [of "\<lparr>Type = gjson_False, Str = [], Num = Finite 0\<rparr>"]
    EVMTranscodeBool_cases [of "\<lparr>Type = gjson_String, Str = ''x'', Num = Finite 0\<rparr>"]
    EVMTranscodeBool_cases [of "\<lparr>Type = gjson_String, Str = [], Num = Finite 0\<rparr>"]
    EVMTranscodeBool_cases [of "\<lparr>Type = gjson_Null, Str = [], Num = Finite 0\<rparr>"]
    EVMTranscodeBool_cases [of "\<lparr>Type = gjson_Number, Str = [], Num = Finite 0\<rparr>"]
    EVMTranscodeBool_cases [of "\<lparr>Type = gjson_Number, Str = [], Num = Finite 5\<rparr>"]
    EVMTranscodeBool_cases [of "\<lparr>Type = gjson_JSON, Str = [], Num = Finite 0\<rparr>"]
  by simp

end
